theory Spec2Isabelle
  imports Main "HOL-Library.Sublist" "HOL-Library.FSet"
begin

section \<open>Python strings\<close>

text \<open>
  A Python \<open>str\<close> is modelled as a \<open>string\<close> (a list of characters); a character stands
  for the code point of the same number, so the model covers the code points below 256.
  The functions of this section are the \<open>str\<close> methods the program calls, with the
  behaviour CPython gives them.
\<close>

datatype error = KeyError string | ValueError | TypeError

text \<open>\<open>c.isspace()\<close>: the whitespace code points below 256 are
  U+0009..U+000D, U+001C..U+0020, U+0085 and U+00A0.\<close>

definition isspace :: "char \<Rightarrow> bool" where
  "isspace c =
     (let n = (of_char c :: nat)
      in (9 \<le> n \<and> n \<le> 13) \<or> (28 \<le> n \<and> n \<le> 32) \<or> n = 133 \<or> n = 160)"

text \<open>\<open>s.strip()\<close>: leading and trailing whitespace removed.\<close>

definition str_strip :: "string \<Rightarrow> string" where
  "str_strip s = rev (dropWhile isspace (rev (dropWhile isspace s)))"

text \<open>\<open>s.find(sub)\<close>: the lowest index where \<open>sub\<close> occurs in \<open>s\<close>; \<open>None\<close> stands for
  Python's \<open>-1\<close>.\<close>

fun str_find :: "string \<Rightarrow> string \<Rightarrow> nat option" where
  "str_find sub [] = (if sub = [] then Some 0 else None)"
| "str_find sub (c # cs) =
     (if prefix sub (c # cs) then Some 0 else map_option Suc (str_find sub cs))"

text \<open>\<open>sub in s\<close>.\<close>

definition str_contains :: "string \<Rightarrow> string \<Rightarrow> bool" where
  "str_contains sub s = (str_find sub s \<noteq> None)"

text \<open>\<open>s.endswith(suf)\<close>.\<close>

definition str_endswith :: "string \<Rightarrow> string \<Rightarrow> bool" where
  "str_endswith suf s =
     (length suf \<le> length s \<and> drop (length s - length suf) s = suf)"

text \<open>\<open>s.split(sep, 1)\<close>: one split, at the first occurrence of \<open>sep\<close>; an empty
  separator raises \<open>ValueError\<close>.\<close>

definition str_split1 :: "string \<Rightarrow> string \<Rightarrow> error + string list" where
  "str_split1 sep s =
     (if sep = [] then Inl ValueError
      else case str_find sep s of
             None \<Rightarrow> Inr [s]
           | Some i \<Rightarrow> Inr [take i s, drop (i + length sep) s])"

lemma str_find_bound: "str_find sub s = Some i \<Longrightarrow> i + length sub \<le> length s"
proof (induction s arbitrary: i)
  case Nil
  then show ?case by (simp split: if_splits)
next
  case (Cons c cs)
  show ?case
  proof (cases "prefix sub (c # cs)")
    case True
    with Cons.prems have "i = 0" by simp
    with prefix_length_le [OF True] show ?thesis by simp
  next
    case False
    with Cons.prems obtain j where "str_find sub cs = Some j" "i = Suc j" by auto
    with Cons.IH show ?thesis by simp
  qed
qed

text \<open>The pieces of \<open>s\<close> between the occurrences of a non-empty \<open>sep\<close>, scanning from the
  left; used by \<open>split\<close>.\<close>

function str_pieces :: "string \<Rightarrow> string \<Rightarrow> string list" where
  "str_pieces sep s =
     (if sep = [] then [s]
      else case str_find sep s of
             None \<Rightarrow> [s]
           | Some i \<Rightarrow> take i s # str_pieces sep (drop (i + length sep) s))"
  by pat_completeness auto
termination
proof (relation "measure (\<lambda>(sep, s). length s)")
  show "wf (measure (\<lambda>(sep, s). length s))" by simp
next
  fix sep s :: string and i
  assume "sep \<noteq> []" "str_find sep s = Some i"
  then have "i + length sep \<le> length s" "0 < length sep"
    by (simp_all add: str_find_bound)
  then have "length s - (i + length sep) < length s"
    by linarith
  then show "((sep, drop (i + length sep) s), (sep, s)) \<in> measure (\<lambda>(sep, s). length s)"
    by simp
qed

text \<open>\<open>s.split(sep)\<close>: split at every occurrence; an empty separator raises
  \<open>ValueError\<close>.\<close>

definition str_split :: "string \<Rightarrow> string \<Rightarrow> error + string list" where
  "str_split sep s = (if sep = [] then Inl ValueError else Inr (str_pieces sep s))"

text \<open>\<open>s.replace(old, new)\<close>: every non-overlapping occurrence of \<open>old\<close>, from the left,
  becomes \<open>new\<close>; with an empty \<open>old\<close>, \<open>new\<close> is put before every character and at the
  end.\<close>

function str_replace :: "string \<Rightarrow> string \<Rightarrow> string \<Rightarrow> string" where
  "str_replace old new s =
     (if old = [] then new @ concat (map (\<lambda>c. c # new) s)
      else case str_find old s of
             None \<Rightarrow> s
           | Some i \<Rightarrow> take i s @ new @ str_replace old new (drop (i + length old) s))"
  by pat_completeness auto
termination
proof (relation "measure (\<lambda>(old, new, s). length s)")
  show "wf (measure (\<lambda>(old, new, s). length s))" by simp
next
  fix old new s :: string and i
  assume "old \<noteq> []" "str_find old s = Some i"
  then have "i + length old \<le> length s" "0 < length old"
    by (simp_all add: str_find_bound)
  then have "length s - (i + length old) < length s"
    by linarith
  then show "((old, new, drop (i + length old) s), (old, new, s))
               \<in> measure (\<lambda>(old, new, s). length s)"
    by simp
qed

text \<open>\<open>sep.join(xs)\<close>.\<close>

fun str_join :: "string \<Rightarrow> string list \<Rightarrow> string" where
  "str_join sep [] = []"
| "str_join sep [x] = x"
| "str_join sep (x # y # ys) = x @ sep @ str_join sep (y # ys)"

text \<open>\<open>str(n)\<close> for a non-negative integer: its decimal digits.\<close>

fun str_of_nat :: "nat \<Rightarrow> string" where
  "str_of_nat n =
     (if n < 10 then [''0123456789'' ! n]
      else str_of_nat (n div 10) @ [''0123456789'' ! (n mod 10)])"

declare str_replace.simps [simp del] str_pieces.simps [simp del] str_of_nat.simps [simp del]

text \<open>Reading a decimal numeral back; \<open>str\<close> of a number is injective.\<close>

definition digit_val :: "char \<Rightarrow> nat" where
  "digit_val c = of_char c - 48"

definition nat_of_str :: "string \<Rightarrow> nat" where
  "nat_of_str s = foldl (\<lambda>a c. 10 * a + digit_val c) 0 s"

lemma digit_val_digit: "d < 10 \<Longrightarrow> digit_val (''0123456789'' ! d) = d"
proof -
  assume "d < 10"
  then have "d \<in> {0, 1, 2, 3, 4, 5, 6, 7, 8, 9}" by auto
  then show ?thesis by (auto simp: digit_val_def)
qed

lemma nat_of_str_of_nat: "nat_of_str (str_of_nat n) = n"
proof (induction n rule: str_of_nat.induct)
  case (1 n)
  show ?case
  proof (cases "n < 10")
    case True
    then show ?thesis
      by (simp add: str_of_nat.simps [of n] nat_of_str_def digit_val_digit)
  next
    case False
    have "nat_of_str (str_of_nat n) = 10 * nat_of_str (str_of_nat (n div 10)) + digit_val (''0123456789'' ! (n mod 10))"
      using False by (simp add: str_of_nat.simps [of n] nat_of_str_def)
    also have "\<dots> = 10 * (n div 10) + n mod 10"
      using False 1 by (simp add: digit_val_digit)
    finally show ?thesis by simp
  qed
qed

lemma str_of_nat_inj: "str_of_nat m = str_of_nat n \<Longrightarrow> m = n"
  by (metis nat_of_str_of_nat)

lemma candidate_inj:
  "original @ ''_'' @ str_of_nat m = original @ ''_'' @ str_of_nat n \<Longrightarrow> m = n"
  by (simp add: str_of_nat_inj)

lemma finite_candidates:
  "finite {k. original @ ''_'' @ str_of_nat k |\<in>| seen}"
proof -
  have "inj (\<lambda>k. original @ ''_'' @ str_of_nat k)"
    by (rule injI) (rule candidate_inj)
  then have "finite ((\<lambda>k. original @ ''_'' @ str_of_nat k) -` fset seen)"
    by (simp add: finite_vimageI)
  moreover have "{k. original @ ''_'' @ str_of_nat k |\<in>| seen}
                   = (\<lambda>k. original @ ''_'' @ str_of_nat k) -` fset seen"
    by auto
  ultimately show ?thesis by simp
qed

section \<open>Templates and the template store\<close>

text \<open>
  A template is the Python \<open>dict\<close> that \<open>json.load\<close> builds for one record of a template
  file: a map from field names to values. Following the data model, field values are
  strings. Fields may be absent.
\<close>

type_synonym template = "string \<rightharpoonup> string"

text \<open>\<open>key in d\<close>, \<open>d[key]\<close> (which raises \<open>KeyError\<close> on a missing key) and
  \<open>d.get(key, default)\<close>.\<close>

definition has_key :: "template \<Rightarrow> string \<Rightarrow> bool" where
  "has_key d key = (d key \<noteq> None)"

definition getitem :: "template \<Rightarrow> string \<Rightarrow> error + string" where
  "getitem d key = (case d key of None \<Rightarrow> Inl (KeyError key) | Some v \<Rightarrow> Inr v)"

definition dict_get :: "template \<Rightarrow> string \<Rightarrow> string \<Rightarrow> string" where
  "dict_get d key dflt = (case d key of None \<Rightarrow> dflt | Some v \<Rightarrow> v)"

text \<open>
  An element of a list as \<open>json.load\<close> builds it: a record (a \<open>dict\<close>), a string, a
  list, or a scalar (\<open>None\<close>, a boolean or a number).
\<close>

datatype element = Record template | Str string | Arr "element list" | Scalar

text \<open>
  \<open>key in x\<close> for a string \<open>key\<close>: a key test on a \<open>dict\<close>, a substring test on a
  string, an element test on a list (only a string equals a string), and \<open>TypeError\<close> on
  a scalar, which is not iterable.
\<close>

fun key_in :: "string \<Rightarrow> element \<Rightarrow> error + bool" where
  "key_in key (Record d) = Inr (has_key d key)"
| "key_in key (Str s) = Inr (str_contains key s)"
| "key_in key (Arr xs) = Inr (list_ex (\<lambda>x. case x of Str s \<Rightarrow> s = key | _ \<Rightarrow> False) xs)"
| "key_in key Scalar = Inl TypeError"

text \<open>\<open>x[key]\<close> for a string \<open>key\<close>: only a \<open>dict\<close> takes a string as index; a string, a
  list and a scalar raise \<open>TypeError\<close>.\<close>

fun subscript :: "element \<Rightarrow> string \<Rightarrow> error + string" where
  "subscript (Record d) key = getitem d key"
| "subscript (Str s) key = Inl TypeError"
| "subscript (Arr xs) key = Inl TypeError"
| "subscript Scalar key = Inl TypeError"

text \<open>The \<open>json_data\<close> argument of the combiners: a list of elements, or a value that is
  not a list.\<close>

datatype json_data = JList "element list" | NotAList

subsection \<open>\<open>validate_json_data\<close>\<close>

text \<open>The loop over the list; \<open>or\<close> evaluates its second operand only when the first is
  false.\<close>

fun validate_elements :: "element list \<Rightarrow> error + bool" where
  "validate_elements [] = Inr True"
| "validate_elements (template # rest) =
     (case key_in ''name'' template of
        Inl e \<Rightarrow> Inl e
      | Inr has_name \<Rightarrow>
          if \<not> has_name then Inr False
          else (case key_in ''prompt'' template of
                  Inl e \<Rightarrow> Inl e
                | Inr has_prompt \<Rightarrow>
                    if \<not> has_prompt then Inr False else validate_elements rest))"

fun validate_json_data :: "json_data \<Rightarrow> error + bool" where
  "validate_json_data NotAList = Inr False"
| "validate_json_data (JList es) = validate_elements es"

subsection \<open>\<open>find_template_by_name\<close>\<close>

text \<open>The template returned is a \<open>dict\<close>: on any other element \<open>template['name']\<close>
  raises.\<close>

fun find_template_by_name :: "element list \<Rightarrow> string \<Rightarrow> error + template option" where
  "find_template_by_name [] template_name = Inr None"
| "find_template_by_name (template # rest) template_name =
     (case subscript template ''name'' of
        Inl e \<Rightarrow> Inl e
      | Inr n \<Rightarrow>
          if n = template_name
          then (case template of Record d \<Rightarrow> Inr (Some d) | _ \<Rightarrow> Inl TypeError)
          else find_template_by_name rest template_name)"

section \<open>The combiners\<close>

subsection \<open>\<open>split_template_advanced\<close>\<close>

definition split_template_advanced :: "string \<Rightarrow> error + string \<times> string" where
  "split_template_advanced t =
     (if str_contains '' . '' t then
        (case str_split1 '' . '' t of
           Inl e \<Rightarrow> Inl e
         | Inr [g, l] \<Rightarrow> Inr (str_strip g, str_strip l)
         | Inr _ \<Rightarrow> Inl ValueError)
      else Inr (t, []))"

subsection \<open>\<open>replace_prompts_in_template\<close>\<close>

text \<open>The expression \<open>f"{a}, {b}" if a and b else a or b\<close> of the source, on the
  template's negative prompt and the caller's.\<close>

definition replace_prompts_in_template ::
  "template \<Rightarrow> string \<Rightarrow> string \<Rightarrow> error + string \<times> string" where
  "replace_prompts_in_template t positive_prompt negative_prompt =
     (case getitem t ''prompt'' of
        Inl e \<Rightarrow> Inl e
      | Inr p \<Rightarrow>
          (let positive_result = str_replace ''{prompt}'' positive_prompt p;
               json_negative_prompt = dict_get t ''negative_prompt'' [];
               negative_result =
                 (if json_negative_prompt \<noteq> [] \<and> negative_prompt \<noteq> []
                  then json_negative_prompt @ '', '' @ negative_prompt
                  else if json_negative_prompt \<noteq> [] then json_negative_prompt
                  else negative_prompt)
           in Inr (positive_result, negative_result)))"

subsection \<open>\<open>replace_prompts_in_template_advanced\<close>\<close>

text \<open>\<open>list(map(lambda x: x.strip(), text.split(",")))\<close>.\<close>

definition tokens :: "string \<Rightarrow> error + string list" where
  "tokens text =
     (case str_split '','' text of Inl e \<Rightarrow> Inl e | Inr xs \<Rightarrow> Inr (map str_strip xs))"

text \<open>The loop \<open>for token_g in token_positive_g: if token_g in token_positive_l:
  token_positive_l.remove(token_g)\<close>; \<open>list.remove\<close> deletes the first occurrence.\<close>

fun dedup_tokens :: "string list \<Rightarrow> string list \<Rightarrow> string list" where
  "dedup_tokens [] token_positive_l = token_positive_l"
| "dedup_tokens (token_g # gs) token_positive_l =
     dedup_tokens gs
       (if token_g \<in> set token_positive_l then remove1 token_g token_positive_l
        else token_positive_l)"

record advanced_result =
  text_g_positive :: string
  text_l_positive :: string
  text_positive :: string
  text_g_negative :: string
  text_l_negative :: string
  text_negative :: string

definition replace_prompts_in_template_advanced ::
  "template \<Rightarrow> string \<Rightarrow> string \<Rightarrow> string \<Rightarrow> string \<Rightarrow> bool \<Rightarrow> error + advanced_result" where
  "replace_prompts_in_template_advanced t positive_prompt_g positive_prompt_l
       negative_prompt negative_prompt_to copy_to_l =
     (case getitem t ''prompt'' of
        Inl e \<Rightarrow> Inl e
      | Inr p \<Rightarrow>
     (case split_template_advanced p of
        Inl e \<Rightarrow> Inl e
      | Inr (template_prompt_g, template_prompt_l_template) \<Rightarrow>
          (let g_pos = str_replace ''{prompt}'' positive_prompt_g template_prompt_g;
               l_pos0 =
                 (if template_prompt_l_template \<noteq> [] \<and> positive_prompt_l \<noteq> []
                  then str_replace ''{prompt}'' positive_prompt_g template_prompt_l_template
                         @ '', '' @ positive_prompt_l
                  else if str_replace ''{prompt}'' positive_prompt_g
                            template_prompt_l_template \<noteq> []
                  then str_replace ''{prompt}'' positive_prompt_g template_prompt_l_template
                  else positive_prompt_l);
               l_pos_res =
                 (if copy_to_l \<and> positive_prompt_g \<noteq> []
                       \<and> \<not> str_contains ''{prompt}'' template_prompt_l_template
                  then
                    (case tokens g_pos of
                       Inl e \<Rightarrow> Inl e
                     | Inr token_positive_g \<Rightarrow>
                    (case tokens l_pos0 of
                       Inl e \<Rightarrow> Inl e
                     | Inr token_positive_l \<Rightarrow>
                         Inr (str_join '', ''
                                (token_positive_g
                                   @ dedup_tokens token_positive_g token_positive_l))))
                  else Inr l_pos0)
           in case l_pos_res of
                Inl e \<Rightarrow> Inl e
              | Inr l_pos \<Rightarrow>
                  (let pos = (if l_pos \<noteq> [] then g_pos @ '' . '' @ l_pos else g_pos);
                       json_negative_prompt = dict_get t ''negative_prompt'' [];
                       neg =
                         (if json_negative_prompt \<noteq> [] \<and> negative_prompt \<noteq> []
                          then json_negative_prompt @ '', '' @ negative_prompt
                          else if json_negative_prompt \<noteq> [] then json_negative_prompt
                          else negative_prompt);
                       g_neg =
                         (if negative_prompt_to = ''Both'' \<or> negative_prompt_to = ''G only''
                          then neg else []);
                       l_neg =
                         (if negative_prompt_to = ''Both'' \<or> negative_prompt_to = ''L only''
                          then neg else [])
                   in Inr \<lparr>text_g_positive = g_pos, text_l_positive = l_pos,
                           text_positive = pos, text_g_negative = g_neg,
                           text_l_negative = l_neg, text_negative = neg\<rparr>))))"

subsection \<open>\<open>read_sdxl_templates_replace_and_combine\<close> and its advanced variant\<close>

text \<open>
  An exception raised by \<open>validate_json_data\<close> or \<open>find_template_by_name\<close> is not caught.
  \<open>if template:\<close> is Python truthiness: \<open>None\<close> and the empty \<open>dict\<close> are false. The
  branch for a value that is not a list is never reached, since \<open>validate_json_data\<close>
  is false there.
\<close>

definition read_sdxl_templates_replace_and_combine ::
  "json_data \<Rightarrow> string \<Rightarrow> string \<Rightarrow> string \<Rightarrow> error + string \<times> string" where
  "read_sdxl_templates_replace_and_combine json_data template_name
       positive_prompt negative_prompt =
     (case validate_json_data json_data of
        Inl e \<Rightarrow> Inl e
      | Inr valid \<Rightarrow>
          if \<not> valid then Inr (positive_prompt, negative_prompt)
          else case json_data of
                 NotAList \<Rightarrow> Inr (positive_prompt, negative_prompt)
               | JList es \<Rightarrow>
                   (case find_template_by_name es template_name of
                      Inl e \<Rightarrow> Inl e
                    | Inr None \<Rightarrow> Inr (positive_prompt, negative_prompt)
                    | Inr (Some t) \<Rightarrow>
                        if t \<noteq> Map.empty
                        then replace_prompts_in_template t positive_prompt negative_prompt
                        else Inr (positive_prompt, negative_prompt)))"

definition fallback_advanced :: "string \<Rightarrow> string \<Rightarrow> string \<Rightarrow> advanced_result" where
  "fallback_advanced positive_prompt_g positive_prompt_l negative_prompt =
     \<lparr>text_g_positive = positive_prompt_g, text_l_positive = positive_prompt_l,
      text_positive = positive_prompt_g @ '' . '' @ positive_prompt_l,
      text_g_negative = negative_prompt, text_l_negative = negative_prompt,
      text_negative = negative_prompt\<rparr>"

definition read_sdxl_templates_replace_and_combine_advanced ::
  "json_data \<Rightarrow> string \<Rightarrow> string \<Rightarrow> string \<Rightarrow> string \<Rightarrow> string \<Rightarrow> bool
     \<Rightarrow> error + advanced_result" where
  "read_sdxl_templates_replace_and_combine_advanced json_data template_name
       positive_prompt_g positive_prompt_l negative_prompt negative_prompt_to copy_to_l =
     (case validate_json_data json_data of
        Inl e \<Rightarrow> Inl e
      | Inr valid \<Rightarrow>
          if \<not> valid
          then Inr (fallback_advanced positive_prompt_g positive_prompt_l negative_prompt)
          else case json_data of
                 NotAList \<Rightarrow>
                   Inr (fallback_advanced positive_prompt_g positive_prompt_l negative_prompt)
               | JList es \<Rightarrow>
                   (case find_template_by_name es template_name of
                      Inl e \<Rightarrow> Inl e
                    | Inr None \<Rightarrow>
                        Inr (fallback_advanced positive_prompt_g positive_prompt_l
                               negative_prompt)
                    | Inr (Some t) \<Rightarrow>
                        if t \<noteq> Map.empty
                        then replace_prompts_in_template_advanced t positive_prompt_g
                               positive_prompt_l negative_prompt negative_prompt_to
                               copy_to_l
                        else Inr (fallback_advanced positive_prompt_g positive_prompt_l
                                    negative_prompt)))"

section \<open>The template store loader\<close>

subsection \<open>The renaming loop of \<open>load_styles_from_directory\<close>\<close>

text \<open>
  \<open>style = original_style; suffix = 1; while style in seen: style =
  f"{original_style}_{suffix}"; suffix += 1\<close>, entered with the current \<open>style\<close> and
  \<open>suffix\<close>. The set \<open>seen\<close> is finite, so the loop ends.
\<close>

function unique_style :: "string fset \<Rightarrow> string \<Rightarrow> string \<Rightarrow> nat \<Rightarrow> string" where
  "unique_style seen original_style style sfx =
     (if style |\<in>| seen
      then unique_style seen original_style
             (original_style @ ''_'' @ str_of_nat sfx) (sfx + 1)
      else style)"
  by pat_completeness auto
termination
proof (relation "measure (\<lambda>(seen, original, style, sfx).
          2 * card {k. sfx \<le> k \<and> original @ ''_'' @ str_of_nat k |\<in>| seen}
          + (if style |\<in>| seen then 1 else 0))")
  show "wf (measure (\<lambda>(seen, original, style, sfx).
          2 * card {k. sfx \<le> k \<and> original @ ''_'' @ str_of_nat k |\<in>| seen}
          + (if style |\<in>| seen then 1 else 0)))"
    by simp
next
  fix seen :: "string fset" and original style :: string and sfx :: nat
  assume style: "style |\<in>| seen"
  let ?C = "\<lambda>n. {k. n \<le> k \<and> original @ ''_'' @ str_of_nat k |\<in>| seen}"
  have fin: "finite (?C n)" for n
    by (rule finite_subset [OF _ finite_candidates [of original seen]]) auto
  have sub: "?C (sfx + 1) \<subseteq> ?C sfx" by auto
  have "2 * card (?C (sfx + 1))
          + (if original @ ''_'' @ str_of_nat sfx |\<in>| seen then 1 else 0)
        < 2 * card (?C sfx) + 1"
  proof (cases "original @ ''_'' @ str_of_nat sfx |\<in>| seen")
    case True
    then have "sfx \<in> ?C sfx" "sfx \<notin> ?C (sfx + 1)" by auto
    with sub have "?C (sfx + 1) \<subset> ?C sfx" by blast
    then have "card (?C (sfx + 1)) < card (?C sfx)"
      by (rule psubset_card_mono [OF fin])
    with True show ?thesis by simp
  next
    case False
    have "card (?C (sfx + 1)) \<le> card (?C sfx)"
      by (rule card_mono [OF fin sub])
    with False show ?thesis by simp
  qed
  with style show "((seen, original, original @ ''_'' @ str_of_nat sfx, sfx + 1),
           (seen, original, style, sfx))
          \<in> measure (\<lambda>(seen, original, style, sfx).
          2 * card {k. sfx \<le> k \<and> original @ ''_'' @ str_of_nat k |\<in>| seen}
          + (if style |\<in>| seen then 1 else 0))"
    by simp
qed

declare unique_style.simps [simp del]

subsection \<open>Files\<close>

text \<open>
  The value of \<open>json.load\<close> on a file: an array; an object, of which the loader meets only
  the keys (iterating a \<open>dict\<close> yields its keys); a string; or a scalar (\<open>None\<close>, a
  boolean or a number), given by its truth value.
\<close>

datatype json_doc = DocArray "element list" | DocObject "string list" | DocString string
  | DocScalar bool

text \<open>\<open>for item in content\<close>: the elements of an array, the keys of an object, the
  characters of a string; a scalar is not iterable.\<close>

fun doc_items :: "json_doc \<Rightarrow> error + element list" where
  "doc_items (DocArray xs) = Inr xs"
| "doc_items (DocObject keys) = Inr (map Str keys)"
| "doc_items (DocString s) = Inr (map (\<lambda>c. Str [c]) s)"
| "doc_items (DocScalar b) = Inl TypeError"

text \<open>\<open>if json_data:\<close>, Python truthiness.\<close>

fun doc_truthy :: "json_doc \<Rightarrow> bool" where
  "doc_truthy (DocArray xs) = (xs \<noteq> [])"
| "doc_truthy (DocObject keys) = (keys \<noteq> [])"
| "doc_truthy (DocString s) = (s \<noteq> [])"
| "doc_truthy (DocScalar b) = b"

text \<open>
  A directory is the list of its entries in the order of \<open>os.listdir\<close>. An entry carries
  what the loader asks of it: its name, whether it is a regular file
  (\<open>os.path.isfile\<close>), whether it may be read (\<open>os.access\<close> with \<open>R_OK\<close>), and the
  value of \<open>json.load\<close> on it, \<open>None\<close> when opening or parsing raises.
\<close>

record dir_entry =
  file_name :: string
  is_file :: bool
  readable :: bool
  parsed :: "json_doc option"

definition get_all_json_files :: "dir_entry list \<Rightarrow> dir_entry list" where
  "get_all_json_files directory =
     filter (\<lambda>f. str_endswith ''.json'' (file_name f) \<and> is_file f) directory"

text \<open>\<open>'name' in item and 'prompt' in item and 'negative_prompt' in item\<close>; \<open>and\<close>
  evaluates its second operand only when the first is true.\<close>

definition item_ok :: "element \<Rightarrow> error + bool" where
  "item_ok item =
     (case key_in ''name'' item of
        Inl e \<Rightarrow> Inl e
      | Inr has_name \<Rightarrow>
          if \<not> has_name then Inr False
          else (case key_in ''prompt'' item of
                  Inl e \<Rightarrow> Inl e
                | Inr has_prompt \<Rightarrow>
                    if \<not> has_prompt then Inr False
                    else key_in ''negative_prompt'' item))"

text \<open>The list comprehension over the items.\<close>

fun items_ok :: "element list \<Rightarrow> error + bool list" where
  "items_ok [] = Inr []"
| "items_ok (item # items) =
     (case item_ok item of
        Inl e \<Rightarrow> Inl e
      | Inr b \<Rightarrow> (case items_ok items of Inl e \<Rightarrow> Inl e | Inr bs \<Rightarrow> Inr (b # bs)))"

text \<open>\<open>read_json_file\<close>: every exception raised inside \<open>try\<close> is caught and gives
  \<open>None\<close>.\<close>

definition read_json_file :: "dir_entry \<Rightarrow> json_doc option" where
  "read_json_file f =
     (if \<not> readable f then None
      else case parsed f of
             None \<Rightarrow> None
           | Some content \<Rightarrow>
               (case doc_items content of
                  Inl e \<Rightarrow> None
                | Inr items \<Rightarrow>
                    (case items_ok items of
                       Inl e \<Rightarrow> None
                     | Inr flags \<Rightarrow>
                         if \<not> list_all (\<lambda>b. b) flags then None else Some content)))"

text \<open>\<open>item[key] = value\<close>: only a \<open>dict\<close> takes it.\<close>

fun assign :: "element \<Rightarrow> string \<Rightarrow> string \<Rightarrow> error + element" where
  "assign (Record d) key v = Inr (Record (d(key \<mapsto> v)))"
| "assign (Str s) key v = Inl TypeError"
| "assign (Arr xs) key v = Inl TypeError"
| "assign Scalar key v = Inl TypeError"

text \<open>The inner loop of \<open>load_styles_from_directory\<close>, on the state \<open>(combined_data,
  seen)\<close>; an exception here is not caught.\<close>

fun load_items ::
  "element list \<Rightarrow> element list \<times> string fset \<Rightarrow> error + element list \<times> string fset" where
  "load_items [] st = Inr st"
| "load_items (item # items) (combined_data, seen) =
     (case subscript item ''name'' of
        Inl e \<Rightarrow> Inl e
      | Inr original_style \<Rightarrow>
          (let style = unique_style seen original_style original_style 1
           in case assign item ''name'' style of
                Inl e \<Rightarrow> Inl e
              | Inr item' \<Rightarrow>
                  load_items items (combined_data @ [item'], finsert style seen)))"

text \<open>The outer loop.\<close>

fun load_files ::
  "dir_entry list \<Rightarrow> element list \<times> string fset \<Rightarrow> error + element list \<times> string fset" where
  "load_files [] st = Inr st"
| "load_files (json_file # fs) st =
     (case read_json_file json_file of
        None \<Rightarrow> load_files fs st
      | Some json_data \<Rightarrow>
          if \<not> doc_truthy json_data then load_files fs st
          else (case doc_items json_data of
                  Inl e \<Rightarrow> Inl e
                | Inr items \<Rightarrow>
                    (case load_items items st of
                       Inl e \<Rightarrow> Inl e
                     | Inr st' \<Rightarrow> load_files fs st')))"

text \<open>\<open>[item['name'] for item in combined_data if isinstance(item, dict) and 'name' in
  item]\<close>.\<close>

definition style_names :: "element list \<Rightarrow> string list" where
  "style_names combined_data =
     List.map_filter (\<lambda>item. case item of Record d \<Rightarrow> d ''name'' | _ \<Rightarrow> None) combined_data"

definition load_styles_from_directory ::
  "dir_entry list \<Rightarrow> error + element list \<times> string list" where
  "load_styles_from_directory directory =
     (case load_files (get_all_json_files directory) ([], {||}) of
        Inl e \<Rightarrow> Inl e
      | Inr (combined_data, seen) \<Rightarrow> Inr (combined_data, style_names combined_data))"

subsection \<open>What the loader is to produce\<close>






section \<open>Facts about the string functions\<close>

lemma str_contains_iff: "str_contains sub s \<longleftrightarrow> (\<exists>a b. s = a @ sub @ b)"
proof (induction s)
  case Nil
  then show ?case by (simp add: str_contains_def)
next
  case (Cons c cs)
  have "str_contains sub (c # cs) \<longleftrightarrow> prefix sub (c # cs) \<or> str_contains sub cs"
    by (simp add: str_contains_def)
  also have "\<dots> \<longleftrightarrow> (\<exists>b. c # cs = sub @ b) \<or> (\<exists>a b. cs = a @ sub @ b)"
    by (simp add: Cons.IH prefix_def)
  also have "\<dots> \<longleftrightarrow> (\<exists>a b. c # cs = a @ sub @ b)"
  proof
    assume "(\<exists>b. c # cs = sub @ b) \<or> (\<exists>a b. cs = a @ sub @ b)"
    then show "\<exists>a b. c # cs = a @ sub @ b"
    proof
      assume "\<exists>b. c # cs = sub @ b"
      then obtain b where "c # cs = [] @ sub @ b" by auto
      then show ?thesis by blast
    next
      assume "\<exists>a b. cs = a @ sub @ b"
      then obtain a b where "c # cs = (c # a) @ sub @ b" by auto
      then show ?thesis by blast
    qed
  next
    assume "\<exists>a b. c # cs = a @ sub @ b"
    then obtain a b where ab: "c # cs = a @ sub @ b" by blast
    show "(\<exists>b. c # cs = sub @ b) \<or> (\<exists>a b. cs = a @ sub @ b)"
    proof (cases a)
      case Nil
      with ab show ?thesis by auto
    next
      case (Cons x a')
      with ab have "cs = a' @ sub @ b" by simp
      then show ?thesis by blast
    qed
  qed
  finally show ?case .
qed

lemma str_find_first:
  "sub \<noteq> [] \<Longrightarrow> \<not> str_contains sub (a @ butlast sub) \<Longrightarrow>
   str_find sub (a @ sub @ b) = Some (length a)"
proof (induction a)
  case Nil
  then obtain c cs where "sub @ b = c # cs" by (cases "sub @ b") auto
  moreover have "prefix sub (sub @ b)" by simp
  ultimately show ?case by simp
next
  case (Cons x a)
  from Cons.prems(2) have np: "\<not> prefix sub (x # a @ butlast sub)"
    and nc: "\<not> str_contains sub (a @ butlast sub)"
    by (simp_all add: str_contains_def split: if_splits)
  have "\<not> prefix sub (x # a @ sub @ b)"
  proof
    assume p: "prefix sub (x # a @ sub @ b)"
    have "x # a @ sub @ b = (x # a @ butlast sub) @ (last sub # b)"
      using Cons.prems(1) by simp
    moreover have "length sub \<le> length (x # a @ butlast sub)"
      by simp
    ultimately have "prefix sub (x # a @ butlast sub)"
      using p by (metis prefix_length_prefix prefixI)
    with np show False ..
  qed
  with Cons.IH [OF Cons.prems(1) nc] show ?case by simp
qed

lemma str_find_decomp:
  "str_find sub s = Some i \<Longrightarrow>
   s = take i s @ sub @ drop (i + length sub) s \<and> (sub \<noteq> [] \<longrightarrow> \<not> str_contains sub (take i s @ butlast sub))"
proof (induction s arbitrary: i)
  case Nil
  then show ?case by (simp add: str_contains_def split: if_splits)
next
  case (Cons c cs)
  show ?case
  proof (cases "prefix sub (c # cs)")
    case True
    with Cons.prems have i: "i = 0" by simp
    from True obtain b where b: "c # cs = sub @ b" by (auto simp: prefix_def)
    have "\<not> str_contains sub (butlast sub)" if "sub \<noteq> []"
    proof
      assume "str_contains sub (butlast sub)"
      then obtain a b where "butlast sub = a @ sub @ b" by (auto simp: str_contains_iff)
      then have "length (butlast sub) = length a + length sub + length b" by simp
      moreover have "length (butlast sub) < length sub" using that by simp
      ultimately show False by linarith
    qed
    with i b show ?thesis by (simp)
  next
    case False
    with Cons.prems obtain j where j: "str_find sub cs = Some j" "i = Suc j" by auto
    define a where "a = take j cs"
    define b where "b = drop (j + length sub) cs"
    from Cons.IH [OF j(1)] have d: "cs = a @ sub @ b"
      and n: "sub \<noteq> [] \<longrightarrow> \<not> str_contains sub (a @ butlast sub)"
      by (simp_all add: a_def b_def)
    have sub: "sub \<noteq> []" using False by auto
    have "\<not> prefix sub (c # a @ butlast sub)"
    proof
      assume "prefix sub (c # a @ butlast sub)"
      then have "prefix sub ((c # a @ butlast sub) @ (last sub # b))"
        using prefix_prefix by blast
      moreover have "(c # a @ butlast sub) @ (last sub # b) = c # cs"
        using sub by (simp add: d)
      ultimately have "prefix sub (c # cs)" by simp
      with False show False ..
    qed
    with n sub have "\<not> str_contains sub (take i (c # cs) @ butlast sub)"
      by (simp add: str_contains_def j(2) a_def)
    moreover have "c # cs = take i (c # cs) @ sub @ drop (i + length sub) (c # cs)"
      using Cons.IH [OF j(1)] by (simp add: j(2))
    ultimately show ?thesis by blast
  qed
qed

lemma str_replace_absent:
  "\<not> str_contains old s \<Longrightarrow> str_replace old new s = s"
proof -
  assume a: "\<not> str_contains old s"
  have "str_contains [] s" by (cases s) (simp_all add: str_contains_def)
  with a have "old \<noteq> []" by auto
  with a show ?thesis by (simp add: str_replace.simps [of old new s] str_contains_def)
qed

lemma str_replace_first:
  assumes "old \<noteq> []" "\<not> str_contains old (a @ butlast old)"
  shows "str_replace old new (a @ old @ b) = a @ new @ str_replace old new b"
  using assms str_find_first [OF assms, of b]
  by (simp add: str_replace.simps [of old new "a @ old @ b"])

lemma str_replace_once:
  assumes "old \<noteq> []" "\<not> str_contains old (a @ butlast old)" "\<not> str_contains old b"
  shows "str_replace old new (a @ old @ b) = a @ new @ b"
  using assms by (simp add: str_replace_first str_replace_absent)

lemma str_strip_decomp:
  "\<exists>l r. s = l @ str_strip s @ r \<and> list_all isspace l \<and> list_all isspace r"
proof -
  define m where "m = dropWhile isspace s"
  have "s = takeWhile isspace s @ m"
    by (simp add: m_def)
  moreover have "m = str_strip s @ rev (takeWhile isspace (rev m))"
  proof -
    have "m = rev (takeWhile isspace (rev m) @ dropWhile isspace (rev m))"
      by simp
    also have "\<dots> = rev (dropWhile isspace (rev m)) @ rev (takeWhile isspace (rev m))"
      by (rule rev_append)
    also have "rev (dropWhile isspace (rev m)) = str_strip s"
      by (simp add: str_strip_def m_def)
    finally show ?thesis .
  qed
  ultimately have "s = takeWhile isspace s @ str_strip s @ rev (takeWhile isspace (rev m))"
    by simp
  moreover have "list_all isspace (takeWhile isspace s)"
    by (auto simp: list_all_iff dest: set_takeWhileD)
  moreover have "list_all isspace (rev (takeWhile isspace (rev m)))"
    by (auto simp: list_all_iff dest: set_takeWhileD)
  ultimately show ?thesis by blast
qed

lemma str_strip_ends:
  assumes "str_strip s \<noteq> []"
  shows "\<not> isspace (hd (str_strip s))" and "\<not> isspace (last (str_strip s))"
proof -
  define m where "m = dropWhile isspace s"
  define k where "k = dropWhile isspace (rev m)"
  have strip: "str_strip s = rev k" by (simp add: str_strip_def k_def m_def)
  with assms have k: "k \<noteq> []" by simp
  then have "\<not> isspace (hd k)" unfolding k_def by (rule hd_dropWhile)
  then show "\<not> isspace (last (str_strip s))" using k by (simp add: strip last_rev)
  from k have m: "m \<noteq> []" by (auto simp: k_def)
  then have nm: "\<not> isspace (hd m)" unfolding m_def by (rule hd_dropWhile)
  have "rev m = takeWhile isspace (rev m) @ k" by (simp add: k_def)
  with k have "last (rev m) = last k" by (metis last_appendR)
  with m have "hd m = last k" by (simp add: last_rev)
  with nm show "\<not> isspace (hd (str_strip s))" using k by (simp add: strip hd_rev)
qed

section \<open>Facts about the combiners\<close>

lemma split_template_absent:
  "\<not> str_contains '' . '' p \<Longrightarrow> split_template_advanced p = Inr (p, [])"
  by (simp add: split_template_advanced_def)

lemma split_template_at:
  "str_find '' . '' p = Some i \<Longrightarrow>
   split_template_advanced p = Inr (str_strip (take i p), str_strip (drop (i + 3) p))"
  by (simp add: split_template_advanced_def str_contains_def str_split1_def numeral_3_eq_3)

lemma split_template_total: "\<exists>g l. split_template_advanced p = Inr (g, l)"
proof (cases "str_find '' . '' p")
  case None
  then show ?thesis by (simp add: split_template_absent str_contains_def)
next
  case (Some i)
  then show ?thesis by (simp add: split_template_at)
qed

lemma validate_elements_member:
  "validate_elements es = Inr True \<Longrightarrow> e \<in> set es \<Longrightarrow>
   key_in ''name'' e = Inr True \<and> key_in ''prompt'' e = Inr True"
proof (induction es)
  case Nil
  then show ?case by simp
next
  case (Cons x es)
  from Cons.prems(1) have x: "key_in ''name'' x = Inr True \<and> key_in ''prompt'' x = Inr True"
    and rest: "validate_elements es = Inr True"
    by (auto split: sum.splits if_splits)
  from Cons.prems(2) have "e = x \<or> e \<in> set es" by simp
  then show ?case
  proof
    assume "e = x"
    with x show ?thesis by simp
  next
    assume "e \<in> set es"
    with Cons.IH [OF rest] show ?thesis by simp
  qed
qed



lemma find_template_first:
  "find_template_by_name es n = Inr (Some t) \<Longrightarrow>
   \<exists>pre post. es = pre @ Record t # post \<and> t ''name'' = Some n
      \<and> (\<forall>e\<in>set pre. \<exists>d v. e = Record d \<and> d ''name'' = Some v \<and> v \<noteq> n)"
proof (induction es)
  case Nil
  then show ?case by simp
next
  case (Cons x es)
  from Cons.prems obtain v where s: "subscript x ''name'' = Inr v"
    by (auto split: sum.splits)
  then obtain d where x: "x = Record d" and d: "d ''name'' = Some v"
    by (cases x) (auto simp: getitem_def split: option.splits)
  show ?case
  proof (cases "v = n")
    case True
    with Cons.prems s x have "t = d" by simp
    with x d True have "x # es = [] @ Record t # es \<and> t ''name'' = Some n" by simp
    then show ?thesis by fastforce
  next
    case False
    with Cons.prems s have "find_template_by_name es n = Inr (Some t)" by simp
    from Cons.IH [OF this] obtain pre post where
      e: "es = pre @ Record t # post" and t: "t ''name'' = Some n"
      and p: "\<forall>e\<in>set pre. \<exists>d v. e = Record d \<and> d ''name'' = Some v \<and> v \<noteq> n"
      by blast
    from e have "x # es = (x # pre) @ Record t # post" by simp
    moreover from p x d False
    have "\<forall>e\<in>set (x # pre). \<exists>d v. e = Record d \<and> d ''name'' = Some v \<and> v \<noteq> n"
      by auto
    ultimately show ?thesis using t by blast
  qed
qed

lemma found_template:
  assumes "validate_elements es = Inr True" and "find_template_by_name es n = Inr (Some t)"
  shows "Record t \<in> set es" and "t ''name'' = Some n" and "\<exists>p. t ''prompt'' = Some p"
    and "t \<noteq> Map.empty"
proof -
  from find_template_first [OF assms(2)] show m: "Record t \<in> set es"
    and n: "t ''name'' = Some n"
    by auto
  from validate_elements_member [OF assms(1) m] show "\<exists>p. t ''prompt'' = Some p"
    by (simp add: has_key_def)
  from n show "t \<noteq> Map.empty" by auto
qed


lemma replace_prompts_in_template_eq:
  "t ''prompt'' = Some p \<Longrightarrow>
   replace_prompts_in_template t positive negative =
     Inr (str_replace ''{prompt}'' positive p,
          (if dict_get t ''negative_prompt'' [] \<noteq> [] \<and> negative \<noteq> []
           then dict_get t ''negative_prompt'' [] @ '', '' @ negative
           else if dict_get t ''negative_prompt'' [] \<noteq> []
           then dict_get t ''negative_prompt'' [] else negative))"
  by (simp add: replace_prompts_in_template_def getitem_def Let_def)

lemma combine_found_eq:
  assumes "validate_json_data (JList es) = Inr True"
    and "find_template_by_name es name = Inr (Some t)"
  shows "read_sdxl_templates_replace_and_combine (JList es) name positive negative =
           replace_prompts_in_template t positive negative"
  using assms found_template(4) [of es name t]
  by (simp add: read_sdxl_templates_replace_and_combine_def)

lemma tokens_eq: "tokens text = Inr (map str_strip (str_pieces '','' text))"
  by (simp add: tokens_def str_split_def)

lemma combine_advanced_found_eq:
  assumes "validate_json_data (JList es) = Inr True"
    and "find_template_by_name es name = Inr (Some t)"
  shows "read_sdxl_templates_replace_and_combine_advanced (JList es) name positive_g
           positive_l negative negative_to copy_to_l =
         replace_prompts_in_template_advanced t positive_g positive_l negative negative_to
           copy_to_l"
  using assms found_template(4) [of es name t]
  by (simp add: read_sdxl_templates_replace_and_combine_advanced_def)

lemma advanced_negative_fields:
  assumes "t ''prompt'' = Some p"
  shows "\<exists>r. replace_prompts_in_template_advanced t positive_g positive_l negative
                negative_to copy_to_l = Inr r
     \<and> text_negative r =
         (if dict_get t ''negative_prompt'' [] \<noteq> [] \<and> negative \<noteq> []
          then dict_get t ''negative_prompt'' [] @ '', '' @ negative
          else if dict_get t ''negative_prompt'' [] \<noteq> []
          then dict_get t ''negative_prompt'' [] else negative)
     \<and> text_g_negative r =
         (if negative_to = ''Both'' \<or> negative_to = ''G only'' then text_negative r else [])
     \<and> text_l_negative r =
         (if negative_to = ''Both'' \<or> negative_to = ''L only'' then text_negative r else [])"
proof -
  obtain g l where gl: "split_template_advanced p = Inr (g, l)"
    using split_template_total by blast
  show ?thesis
    using assms gl
    by (simp add: replace_prompts_in_template_advanced_def getitem_def tokens_eq Let_def)
qed

lemma dedup_tokens_remove1:
  "dedup_tokens (g # gs) ls = dedup_tokens gs (remove1 g ls)"
  by (simp add: remove1_idem)

lemma dedup_tokens_distinct:
  "distinct ls \<Longrightarrow> dedup_tokens gs ls = filter (\<lambda>x. x \<notin> set gs) ls"
proof (induction gs arbitrary: ls)
  case Nil
  show ?case by simp
next
  case (Cons g gs)
  have "dedup_tokens (g # gs) ls = dedup_tokens gs (remove1 g ls)"
    by (rule dedup_tokens_remove1)
  also have "\<dots> = filter (\<lambda>x. x \<notin> set gs) (remove1 g ls)"
    using Cons.prems by (intro Cons.IH) simp
  also have "remove1 g ls = filter (\<lambda>x. x \<noteq> g) ls"
    using Cons.prems by (simp add: distinct_remove1_removeAll removeAll_filter_not_eq) metis
  finally show ?case by (simp add: conj_commute)
qed

section \<open>Facts about the loader\<close>








lemma item_ok_Record:
  "item_ok (Record d)
     = Inr (d ''name'' \<noteq> None \<and> d ''prompt'' \<noteq> None \<and> d ''negative_prompt'' \<noteq> None)"
  by (simp add: item_ok_def has_key_def)

lemma items_ok_records:
  "items_ok (map Record content)
     = Inr (map (\<lambda>d. d ''name'' \<noteq> None \<and> d ''prompt'' \<noteq> None
                     \<and> d ''negative_prompt'' \<noteq> None) content)"
  by (induction content) (simp_all add: item_ok_Record)


lemma read_json_file_records:
  assumes "readable f" and "parsed f = Some (DocArray (map Record content))"
  shows "read_json_file f =
           (if \<forall>d\<in>set content. d ''name'' \<noteq> None \<and> d ''prompt'' \<noteq> None
                  \<and> d ''negative_prompt'' \<noteq> None
            then Some (DocArray (map Record content)) else None)"
  using assms by (auto simp: read_json_file_def items_ok_records list_all_iff)






lemma load_rejected:
  "read_json_file f = None \<Longrightarrow> load_styles_from_directory [f] = Inr ([], [])"
  by (simp add: load_styles_from_directory_def get_all_json_files_def style_names_def)

section \<open>The claims\<close>

text \<open>
  C6. \<open>split_template_advanced\<close> splits the template prompt at the first occurrence of
  the separator \<open>" . "\<close> (an occurrence at \<open>a\<close> with none starting earlier) and strips
  both parts; every prompt that contains the separator has such a first occurrence.
  Without the separator the result is the whole prompt, unstripped, and the empty string.
  Stripping removes a run of whitespace at each end and leaves no whitespace at either
  end.
\<close>

theorem split_template_advanced_spec:
  "(p = a @ '' . '' @ b \<and> \<not> str_contains '' . '' (a @ '' .'')
      \<longrightarrow> split_template_advanced p = Inr (str_strip a, str_strip b))
   \<and> (str_contains '' . '' p
      \<longrightarrow> (\<exists>a b. p = a @ '' . '' @ b \<and> \<not> str_contains '' . '' (a @ '' .'')))
   \<and> (\<not> str_contains '' . '' p \<longrightarrow> split_template_advanced p = Inr (p, []))
   \<and> (\<exists>l r. s = l @ str_strip s @ r \<and> list_all isspace l \<and> list_all isspace r)
   \<and> (str_strip s \<noteq> [] \<longrightarrow> \<not> isspace (hd (str_strip s)) \<and> \<not> isspace (last (str_strip s)))"
proof (intro conjI impI)
  assume h: "p = a @ '' . '' @ b \<and> \<not> str_contains '' . '' (a @ '' .'')"
  then have "str_find '' . '' p = Some (length a)"
    using str_find_first [of "'' . ''" a b] by simp
  from split_template_at [OF this] h
  show "split_template_advanced p = Inr (str_strip a, str_strip b)" by simp
next
  assume "str_contains '' . '' p"
  then obtain i where i: "str_find '' . '' p = Some i"
    by (auto simp: str_contains_def)
  from str_find_decomp [OF i]
  have "p = take i p @ '' . '' @ drop (i + 3) p \<and> \<not> str_contains '' . '' (take i p @ '' .'')"
    by (simp add: numeral_3_eq_3)
  then show "\<exists>a b. p = a @ '' . '' @ b \<and> \<not> str_contains '' . '' (a @ '' .'')"
    by blast
next
  assume "\<not> str_contains '' . '' p"
  then show "split_template_advanced p = Inr (p, [])" by (rule split_template_absent)
next
  show "\<exists>l r. s = l @ str_strip s @ r \<and> list_all isspace l \<and> list_all isspace r"
    by (rule str_strip_decomp)
next
  assume "str_strip s \<noteq> []"
  then show "\<not> isspace (hd (str_strip s))" and "\<not> isspace (last (str_strip s))"
    by (rule str_strip_ends)+
qed

theorem split_template_advanced_spec_witness:
  "split_template_advanced ''G {prompt}  .  L {prompt} . x'' = Inr (''G {prompt}'', ''L {prompt} . x'')
   \<and> split_template_advanced '' no separator.'' = Inr ('' no separator.'', [])"
  using split_template_advanced_spec [of "''G {prompt}  .  L {prompt} . x''" "''G {prompt} ''" "'' L {prompt} . x''" "[]"]
    split_template_advanced_spec [of "'' no separator.''" "[]" "[]" "[]"]
  by (simp add: str_contains_def str_strip_def isspace_def)

text \<open>
  C1. When the store passes validation and the lookup finds template \<open>t\<close>, the basic
  combiner returns the template's prompt with the marker \<open>{prompt}\<close> replaced by the
  positive text, and the merged negative text: the template's negative prompt, a comma
  and a space, and the caller's negative text when both are non-empty, the non-empty one
  when one is empty, and the empty string when both are. A prompt without the marker comes
  back unchanged; at an occurrence of the marker with none starting earlier, the text
  before it is kept, the positive text stands in its place, and the rest is treated alike.
\<close>

theorem combine_basic_found:
  assumes "validate_json_data (JList es) = Inr True"
    and "find_template_by_name es name = Inr (Some t)"
  shows "\<exists>p. t ''prompt'' = Some p
     \<and> read_sdxl_templates_replace_and_combine (JList es) name positive negative =
         Inr (str_replace ''{prompt}'' positive p,
              (if dict_get t ''negative_prompt'' [] \<noteq> [] \<and> negative \<noteq> []
               then dict_get t ''negative_prompt'' [] @ '', '' @ negative
               else if dict_get t ''negative_prompt'' [] \<noteq> []
               then dict_get t ''negative_prompt'' []
               else if negative \<noteq> [] then negative else []))
     \<and> (\<not> str_contains ''{prompt}'' p \<longrightarrow> str_replace ''{prompt}'' positive p = p)
     \<and> (\<forall>a b. p = a @ ''{prompt}'' @ b \<and> \<not> str_contains ''{prompt}'' (a @ ''{prompt'')
            \<longrightarrow> str_replace ''{prompt}'' positive p
                  = a @ positive @ str_replace ''{prompt}'' positive b)"
proof -
  from assms obtain p where p: "t ''prompt'' = Some p"
    using found_template(3) [of es name t] by auto
  have "read_sdxl_templates_replace_and_combine (JList es) name positive negative =
         Inr (str_replace ''{prompt}'' positive p,
              (if dict_get t ''negative_prompt'' [] \<noteq> [] \<and> negative \<noteq> []
               then dict_get t ''negative_prompt'' [] @ '', '' @ negative
               else if dict_get t ''negative_prompt'' [] \<noteq> []
               then dict_get t ''negative_prompt'' []
               else if negative \<noteq> [] then negative else []))"
    using p by (simp add: combine_found_eq [OF assms] replace_prompts_in_template_eq)
  moreover have "\<not> str_contains ''{prompt}'' p \<longrightarrow> str_replace ''{prompt}'' positive p = p"
    by (simp add: str_replace_absent)
  moreover have "\<forall>a b. p = a @ ''{prompt}'' @ b \<and> \<not> str_contains ''{prompt}'' (a @ ''{prompt'')
            \<longrightarrow> str_replace ''{prompt}'' positive p
                  = a @ positive @ str_replace ''{prompt}'' positive b"
    using str_replace_first [of "''{prompt}''" _ positive] by simp
  ultimately show ?thesis using p by blast
qed

theorem combine_basic_found_witness:
  "validate_json_data
     (JList [Record [''name'' \<mapsto> ''A'', ''prompt'' \<mapsto> ''a {prompt} b'',
                     ''negative_prompt'' \<mapsto> ''n1'']])
     = Inr True
   \<and> find_template_by_name
       [Record [''name'' \<mapsto> ''A'', ''prompt'' \<mapsto> ''a {prompt} b'', ''negative_prompt'' \<mapsto> ''n1'']] ''A''
     = Inr (Some [''name'' \<mapsto> ''A'', ''prompt'' \<mapsto> ''a {prompt} b'',
                  ''negative_prompt'' \<mapsto> ''n1''])
   \<and> read_sdxl_templates_replace_and_combine
       (JList [Record [''name'' \<mapsto> ''A'', ''prompt'' \<mapsto> ''a {prompt} b'', ''negative_prompt'' \<mapsto> ''n1'']])
       ''A'' ''X'' ''n2''
     = Inr (''a X b'', ''n1, n2'')"
proof -
  let ?t = "[''name'' \<mapsto> ''A'', ''prompt'' \<mapsto> ''a {prompt} b'', ''negative_prompt'' \<mapsto> ''n1'']"
  have v: "validate_json_data (JList [Record ?t]) = Inr True" by (simp add: has_key_def)
  have f: "find_template_by_name [Record ?t] ''A'' = Inr (Some ?t)" by (simp add: getitem_def)
  from combine_basic_found [OF v f, of "''X''" "''n2''"]
  have "read_sdxl_templates_replace_and_combine (JList [Record ?t]) ''A'' ''X'' ''n2''
          = Inr (str_replace ''{prompt}'' ''X'' ''a {prompt} b'', ''n1, n2'')"
    by (simp add: dict_get_def)
  then have "read_sdxl_templates_replace_and_combine (JList [Record ?t]) ''A'' ''X'' ''n2''
          = Inr (''a X b'', ''n1, n2'')"
    by (simp add: str_replace.simps)
  with v f show ?thesis by blast
qed







text \<open>
  C5. For a found template the advanced combiner routes the combined negative text by the
  selector: \<open>"Both"\<close> puts it into both channels, \<open>"G only"\<close> into the global channel
  with the local one empty, \<open>"L only"\<close> into the local channel with the global one empty.
\<close>

theorem advanced_negative_routing:
  assumes "validate_json_data (JList es) = Inr True"
    and "find_template_by_name es name = Inr (Some t)"
  shows "\<exists>r. read_sdxl_templates_replace_and_combine_advanced (JList es) name positive_g
                positive_l negative negative_to copy_to_l = Inr r
     \<and> (negative_to = ''Both'' \<longrightarrow>
            text_g_negative r = text_negative r \<and> text_l_negative r = text_negative r)
     \<and> (negative_to = ''G only'' \<longrightarrow>
            text_g_negative r = text_negative r \<and> text_l_negative r = [])
     \<and> (negative_to = ''L only'' \<longrightarrow>
            text_g_negative r = [] \<and> text_l_negative r = text_negative r)"
proof -
  from assms obtain p where p: "t ''prompt'' = Some p"
    using found_template(3) [of es name t] by auto
  from advanced_negative_fields [of t p positive_g positive_l negative negative_to copy_to_l, OF p]
  obtain r where "replace_prompts_in_template_advanced t positive_g positive_l negative
                negative_to copy_to_l = Inr r"
    and "text_g_negative r =
         (if negative_to = ''Both'' \<or> negative_to = ''G only'' then text_negative r else [])"
    and "text_l_negative r =
         (if negative_to = ''Both'' \<or> negative_to = ''L only'' then text_negative r else [])"
    by blast
  then show ?thesis
    by (simp add: combine_advanced_found_eq [OF assms])
qed

theorem advanced_negative_routing_witness:
  "map_sum id (\<lambda>r. (text_g_negative r, text_l_negative r, text_negative r))
     (read_sdxl_templates_replace_and_combine_advanced
       (JList [Record [''name'' \<mapsto> ''A'', ''prompt'' \<mapsto> ''G {prompt} . L'',
                ''negative_prompt'' \<mapsto> ''n1'']])
       ''A'' ''cat'' ''sitting'' ''n2'' ''G only'' False)
     = Inr (''n1, n2'', [], ''n1, n2'')
   \<and> map_sum id (\<lambda>r. (text_g_negative r, text_l_negative r, text_negative r))
     (read_sdxl_templates_replace_and_combine_advanced
       (JList [Record [''name'' \<mapsto> ''A'', ''prompt'' \<mapsto> ''G {prompt} . L'',
                ''negative_prompt'' \<mapsto> ''n1'']])
       ''A'' ''cat'' ''sitting'' ''n2'' ''L only'' False)
     = Inr ([], ''n1, n2'', ''n1, n2'')
   \<and> map_sum id (\<lambda>r. (text_g_negative r, text_l_negative r, text_negative r))
     (read_sdxl_templates_replace_and_combine_advanced
       (JList [Record [''name'' \<mapsto> ''A'', ''prompt'' \<mapsto> ''G {prompt} . L'',
                ''negative_prompt'' \<mapsto> ''n1'']])
       ''A'' ''cat'' ''sitting'' ''n2'' ''Both'' False)
     = Inr (''n1, n2'', ''n1, n2'', ''n1, n2'')"
proof -
  let ?t = "[''name'' \<mapsto> ''A'', ''prompt'' \<mapsto> ''G {prompt} . L'', ''negative_prompt'' \<mapsto> ''n1'']"
  have v: "validate_json_data (JList [Record ?t]) = Inr True" by (simp add: has_key_def)
  have f: "find_template_by_name [Record ?t] ''A'' = Inr (Some ?t)" by (simp add: getitem_def)
  have n: "text_negative r = ''n1, n2''"
    if "read_sdxl_templates_replace_and_combine_advanced (JList [Record ?t]) ''A'' ''cat''
         ''sitting'' ''n2'' sel False = Inr r" for r sel
    using that
      advanced_negative_fields [of ?t "''G {prompt} . L''" "''cat''" "''sitting''" "''n2''" sel False]
    by (auto simp: combine_advanced_found_eq [OF v f] dict_get_def)
  from advanced_negative_routing [OF v f, of "''cat''" "''sitting''" "''n2''" "''G only''" False]
    advanced_negative_routing [OF v f, of "''cat''" "''sitting''" "''n2''" "''L only''" False]
    advanced_negative_routing [OF v f, of "''cat''" "''sitting''" "''n2''" "''Both''" False]
  show ?thesis
    by (auto simp: n)
qed

text \<open>
  C10. For a found template and a selector that is none of \<open>"Both"\<close>, \<open>"G only"\<close> and
  \<open>"L only"\<close>, both negative channels are empty, and the combined negative text is
  still the merge of the template's negative prompt and the caller's.
\<close>

theorem advanced_negative_other_selector:
  assumes "validate_json_data (JList es) = Inr True"
    and "find_template_by_name es name = Inr (Some t)"
    and "negative_to \<noteq> ''Both''" and "negative_to \<noteq> ''G only''"
    and "negative_to \<noteq> ''L only''"
  shows "\<exists>r. read_sdxl_templates_replace_and_combine_advanced (JList es) name positive_g
                positive_l negative negative_to copy_to_l = Inr r
     \<and> text_g_negative r = [] \<and> text_l_negative r = []
     \<and> text_negative r =
         (if dict_get t ''negative_prompt'' [] \<noteq> [] \<and> negative \<noteq> []
          then dict_get t ''negative_prompt'' [] @ '', '' @ negative
          else if dict_get t ''negative_prompt'' [] \<noteq> []
          then dict_get t ''negative_prompt'' [] else negative)"
proof -
  from assms obtain p where p: "t ''prompt'' = Some p"
    using found_template(3) [of es name t] by auto
  from advanced_negative_fields [of t p positive_g positive_l negative negative_to copy_to_l, OF p]
  obtain r where r: "replace_prompts_in_template_advanced t positive_g positive_l negative
                negative_to copy_to_l = Inr r"
    and n: "text_negative r =
         (if dict_get t ''negative_prompt'' [] \<noteq> [] \<and> negative \<noteq> []
          then dict_get t ''negative_prompt'' [] @ '', '' @ negative
          else if dict_get t ''negative_prompt'' [] \<noteq> []
          then dict_get t ''negative_prompt'' [] else negative)"
    and g: "text_g_negative r =
         (if negative_to = ''Both'' \<or> negative_to = ''G only'' then text_negative r else [])"
    and l: "text_l_negative r =
         (if negative_to = ''Both'' \<or> negative_to = ''L only'' then text_negative r else [])"
    by blast
  from g l assms(3-5) have "text_g_negative r = []" and "text_l_negative r = []"
    by simp_all
  with r n show ?thesis
    unfolding combine_advanced_found_eq [OF assms(1,2)] by blast
qed

theorem advanced_negative_other_selector_witness:
  "map_sum id (\<lambda>r. (text_g_negative r, text_l_negative r, text_negative r))
     (read_sdxl_templates_replace_and_combine_advanced
       (JList [Record [''name'' \<mapsto> ''A'', ''prompt'' \<mapsto> ''G {prompt} . L'',
                ''negative_prompt'' \<mapsto> ''n1'']])
       ''A'' ''cat'' ''sitting'' ''n2'' ''both'' True)
     = Inr ([], [], ''n1, n2'')"
proof -
  let ?t = "[''name'' \<mapsto> ''A'', ''prompt'' \<mapsto> ''G {prompt} . L'', ''negative_prompt'' \<mapsto> ''n1'']"
  have v: "validate_json_data (JList [Record ?t]) = Inr True" by (simp add: has_key_def)
  have f: "find_template_by_name [Record ?t] ''A'' = Inr (Some ?t)" by (simp add: getitem_def)
  from advanced_negative_other_selector [OF v f, of "''both''" "''cat''" "''sitting''" "''n2''" True]
  show ?thesis
    by (auto simp: dict_get_def)
qed

text \<open>
  C3. The claim merges the substituted local text with the positive-local text by the rule
  "both non-empty: comma-join; else the non-empty one". The source tests the local template
  before substitution. With the local template \<open>{prompt}\<close>, an empty positive-global text
  and the positive-local text \<open>sitting\<close>, the substituted text is empty, so the rule gives
  \<open>sitting\<close>; the code returns \<open>, sitting\<close>.
\<close>

theorem advanced_local_leading_comma:
  "read_sdxl_templates_replace_and_combine_advanced
     (JList [Record [''name'' \<mapsto> ''A'', ''prompt'' \<mapsto> ''G . {prompt}'', ''negative_prompt'' \<mapsto> []]])
     ''A'' [] ''sitting'' [] ''Both'' False
   = Inr \<lparr>text_g_positive = ''G'', text_l_positive = '', sitting'',
          text_positive = ''G . , sitting'', text_g_negative = [], text_l_negative = [],
          text_negative = []\<rparr>"
  by (simp add: read_sdxl_templates_replace_and_combine_advanced_def has_key_def getitem_def
      replace_prompts_in_template_advanced_def split_template_advanced_def str_contains_def
      str_split1_def str_strip_def isspace_def str_replace.simps dict_get_def Let_def)

text \<open>
  C4. The claim removes from the local tokens every token that occurs among the global
  tokens. \<open>list.remove\<close> deletes one occurrence for each global token, so a token that
  stands twice in the local list and once in the global list survives: with the local
  template \<open>sharp, detailed, sharp\<close> and the positive-global text \<open>sharp, cat\<close> the local
  result still ends in \<open>sharp\<close>.
\<close>

theorem advanced_copy_keeps_repeated_token:
  "read_sdxl_templates_replace_and_combine_advanced
     (JList [Record [''name'' \<mapsto> ''A'', ''prompt'' \<mapsto> ''{prompt} . sharp, detailed, sharp'',
              ''negative_prompt'' \<mapsto> []]])
     ''A'' ''sharp, cat'' [] [] ''Both'' True
   = Inr \<lparr>text_g_positive = ''sharp, cat'',
          text_l_positive = ''sharp, cat, detailed, sharp'',
          text_positive = ''sharp, cat . sharp, cat, detailed, sharp'',
          text_g_negative = [], text_l_negative = [], text_negative = []\<rparr>"
  by (simp add: read_sdxl_templates_replace_and_combine_advanced_def has_key_def getitem_def
      replace_prompts_in_template_advanced_def split_template_advanced_def str_contains_def
      str_split1_def str_strip_def isspace_def str_replace.simps dict_get_def Let_def
      tokens_def str_split_def str_pieces.simps)




text \<open>
  C9. A readable file that parses to a list of records is accepted exactly when every
  record has the keys \<open>name\<close>, \<open>prompt\<close> and \<open>negative_prompt\<close>; a file that is unreadable
  or does not parse is rejected, and a rejected file adds nothing to the store. So a file
  whose records leave out \<open>negative_prompt\<close> is rejected, as theorem
  \<open>read_json_file_rejects_missing_negative\<close> shows.
\<close>

theorem read_json_file_accepts:
  "(readable f \<and> parsed f = Some (DocArray (map Record content)) \<longrightarrow>
      (read_json_file f = Some (DocArray (map Record content)) \<longleftrightarrow>
         (\<forall>item\<in>set content. ''name'' \<in> dom item \<and> ''prompt'' \<in> dom item
             \<and> ''negative_prompt'' \<in> dom item))
      \<and> (read_json_file f = None \<longleftrightarrow>
           (\<exists>item\<in>set content. ''name'' \<notin> dom item \<or> ''prompt'' \<notin> dom item
               \<or> ''negative_prompt'' \<notin> dom item)))
   \<and> (\<not> readable f \<or> parsed f = None \<longrightarrow> read_json_file f = None)
   \<and> (read_json_file f = None \<longrightarrow> load_styles_from_directory [f] = Inr ([], []))"
proof (intro conjI impI)
  assume a: "readable f \<and> parsed f = Some (DocArray (map Record content))"
  then have r: "read_json_file f =
           (if \<forall>d\<in>set content. d ''name'' \<noteq> None \<and> d ''prompt'' \<noteq> None
                  \<and> d ''negative_prompt'' \<noteq> None
            then Some (DocArray (map Record content)) else None)"
    by (simp add: read_json_file_records)
  show "read_json_file f = Some (DocArray (map Record content)) \<longleftrightarrow>
         (\<forall>item\<in>set content. ''name'' \<in> dom item \<and> ''prompt'' \<in> dom item
             \<and> ''negative_prompt'' \<in> dom item)"
    unfolding r by (auto simp: dom_def)
  show "read_json_file f = None \<longleftrightarrow>
           (\<exists>item\<in>set content. ''name'' \<notin> dom item \<or> ''prompt'' \<notin> dom item
               \<or> ''negative_prompt'' \<notin> dom item)"
    unfolding r by (auto simp: dom_def)
next
  assume "\<not> readable f \<or> parsed f = None"
  then show "read_json_file f = None"
    by (auto simp: read_json_file_def)
next
  assume "read_json_file f = None"
  then show "load_styles_from_directory [f] = Inr ([], [])"
    by (rule load_rejected)
qed

theorem read_json_file_accepts_witness:
  "read_json_file
     \<lparr>file_name = ''a.json'', is_file = True, readable = True,
      parsed = Some (DocArray [Record [''name'' \<mapsto> ''A'', ''prompt'' \<mapsto> ''x {prompt}'',
                                       ''negative_prompt'' \<mapsto> []]])\<rparr>
   = Some (DocArray [Record [''name'' \<mapsto> ''A'', ''prompt'' \<mapsto> ''x {prompt}'',
                             ''negative_prompt'' \<mapsto> []]])
   \<and> read_json_file
       \<lparr>file_name = ''b.json'', is_file = True, readable = False,
        parsed = Some (DocArray [Record [''name'' \<mapsto> ''A'', ''prompt'' \<mapsto> ''x {prompt}'',
                                         ''negative_prompt'' \<mapsto> []]])\<rparr>
     = None"
  using read_json_file_accepts
      [of "\<lparr>file_name = ''a.json'', is_file = True, readable = True,
            parsed = Some (DocArray [Record [''name'' \<mapsto> ''A'', ''prompt'' \<mapsto> ''x {prompt}'',
                                             ''negative_prompt'' \<mapsto> []]])\<rparr>"
          "[[''name'' \<mapsto> ''A'', ''prompt'' \<mapsto> ''x {prompt}'', ''negative_prompt'' \<mapsto> []]]"]
    read_json_file_accepts
      [of "\<lparr>file_name = ''b.json'', is_file = True, readable = False,
            parsed = Some (DocArray [Record [''name'' \<mapsto> ''A'', ''prompt'' \<mapsto> ''x {prompt}'',
                                             ''negative_prompt'' \<mapsto> []]])\<rparr>" "[]"]
  by simp

theorem read_json_file_rejects_missing_negative:
  "read_json_file
     \<lparr>file_name = ''a.json'', is_file = True, readable = True,
      parsed = Some (DocArray [Record [''name'' \<mapsto> ''A'', ''prompt'' \<mapsto> ''x {prompt}'']])\<rparr>
   = None
   \<and> load_styles_from_directory
       [\<lparr>file_name = ''a.json'', is_file = True, readable = True,
         parsed = Some (DocArray [Record [''name'' \<mapsto> ''A'',
                                          ''prompt'' \<mapsto> ''x {prompt}'']])\<rparr>]
     = Inr ([], [])"
  by (simp add: load_styles_from_directory_def get_all_json_files_def str_endswith_def
      read_json_file_def item_ok_def has_key_def style_names_def)

end
